theory Spec2Isabelle
  imports Main "HOL-Library.Char_ord"
begin

section \<open>Strings and results\<close>

text \<open>
  A JavaScript string is modelled as a \<^typ>\<open>string\<close>, one \<^typ>\<open>char\<close> per code unit
  (the code units below 256). None of the functions below looks at a code unit beyond the
  ASCII letters, digits and punctuation it names; every other one is copied or skipped
  like any other character that is neither a word character nor a delimiter.

  Reading a property of \<open>undefined\<close> is the one way the converter could throw; it is a
  value of the result type.
\<close>

datatype error = TypeError

section \<open>The runtime converter: \<open>src/openapi-router.ts\<close>\<close>

text \<open>The character class \<open>[A-Za-z0-9_]\<close> of the regular expression.\<close>

definition isWordChar :: "char \<Rightarrow> bool" where
  "isWordChar c \<longleftrightarrow>
     (CHR ''A'' \<le> c \<and> c \<le> CHR ''Z'') \<or> (CHR ''a'' \<le> c \<and> c \<le> CHR ''z'') \<or>
     (CHR ''0'' \<le> c \<and> c \<le> CHR ''9'') \<or> c = CHR ''_''"

text \<open>
  \<open>pattern.split("?")\<close>: the pieces of the string between the occurrences of a one-character
  separator. The array always has a first piece; the empty string gives \<open>[""]\<close>.
\<close>

function split_str :: "char \<Rightarrow> string \<Rightarrow> string list" where
  "split_str sep s =
     takeWhile (\<lambda>c. c \<noteq> sep) s #
       (case dropWhile (\<lambda>c. c \<noteq> sep) s of
          [] \<Rightarrow> []
        | _ # rest \<Rightarrow> split_str sep rest)"
  by pat_completeness auto
termination
proof (relation "measure (\<lambda>(sep, s). length s)")
  show "wf (measure (\<lambda>(sep, s). length s))" by simp
next
  fix sep :: char and s :: string and x rest
  assume "dropWhile (\<lambda>c. c \<noteq> sep) s = x # rest"
  then have "length (x # rest) \<le> length s"
    by (metis length_dropWhile_le)
  then show "((sep, rest), (sep, s)) \<in> measure (\<lambda>(sep, s). length s)"
    by simp
qed

declare split_str.simps [simp del]

text \<open>\<open>xs[0]\<close>: the first element of an array, \<open>undefined\<close> (here \<open>None\<close>) when it is empty.\<close>

definition index0 :: "'a list \<Rightarrow> 'a option" where
  "index0 xs = (case xs of [] \<Rightarrow> None | x # _ \<Rightarrow> Some x)"

text \<open>
  One attempt of \<open>/:([A-Za-z0-9_]+)/\<close> at the start of the input: a colon, then the longest
  non-empty run of word characters (the quantifier is greedy and nothing follows it, so
  there is no backtracking). The result is capture group 1 and the input after the match.
\<close>

fun matchParam :: "string \<Rightarrow> (string \<times> string) option" where
  "matchParam [] = None"
| "matchParam (c # cs) =
     (if c = CHR '':'' \<and> takeWhile isWordChar cs \<noteq> []
      then Some (takeWhile isWordChar cs, dropWhile isWordChar cs)
      else None)"

text \<open>The replacement template \<open>"{$1}"\<close>, with \<open>$1\<close> the text of capture group 1.\<close>

definition replacement :: "string \<Rightarrow> string" where
  "replacement g1 = ''{'' @ g1 @ ''}''"

text \<open>
  \<open>s.replace(/:([A-Za-z0-9_]+)/g, "{$1}")\<close>: scanning from the left, a match is replaced and
  the scan goes on after it; where there is no match the character is copied and the scan
  goes on at the next one.
\<close>

function replace_global :: "string \<Rightarrow> string" where
  "replace_global [] = []"
| "replace_global (c # cs) =
     (case matchParam (c # cs) of
        Some (g1, rest) \<Rightarrow> replacement g1 @ replace_global rest
      | None \<Rightarrow> c # replace_global cs)"
  by pat_completeness auto
termination
  by (relation "measure length")
    (auto split: if_splits simp: less_Suc_eq_le length_dropWhile_le)

definition toOpenApiPath :: "string \<Rightarrow> error + string" where
  "toOpenApiPath pattern =
     (case index0 (split_str CHR ''?'' pattern) of
        None \<Rightarrow> Inl TypeError
      | Some pathWithoutQuery \<Rightarrow> Inr (replace_global pathWithoutQuery))"

text \<open>
  \<open>String.prototype.toLowerCase\<close> on one code unit below 256: the ASCII capitals and the
  Latin-1 capitals (\<open>U+00C0\<close> to \<open>U+00DE\<close> without the multiplication sign \<open>U+00D7\<close>) move
  up by 32, every other code unit stays.
\<close>

definition toLowerCase_char :: "char \<Rightarrow> char" where
  "toLowerCase_char c =
     (if (CHR ''A'' \<le> c \<and> c \<le> CHR ''Z'') \<or>
         (CHR 0xC0 \<le> c \<and> c \<le> CHR 0xDE \<and> c \<noteq> CHR 0xD7)
      then char_of (of_char c + (32 :: nat))
      else c)"

definition toLowerCase :: "string \<Rightarrow> string" where
  "toLowerCase s = map toLowerCase_char s"

definition toOpenApiMethod :: "string \<Rightarrow> string" where
  "toOpenApiMethod m =
     (let openApi = (if m = ''ANY'' then ''GET'' else m)
      in toLowerCase openApi)"

section \<open>The type-level converter: \<open>src/openapi-router.ts\<close> and \<open>src/types.ts\<close>\<close>

text \<open>
  The conditional types are functions on string literals. A template pattern
  \<open>`${infer A}x${infer B}`\<close> matches a literal that contains \<open>x\<close>, with \<open>A\<close> the text before
  the first \<open>x\<close> and \<open>B\<close> the text after it; \<open>`${infer C}${infer Rest}`\<close> matches a
  non-empty literal, with \<open>C\<close> its first character. The compiler's limit on the depth of
  instantiation is not modelled.
\<close>

definition infer_around :: "char \<Rightarrow> string \<Rightarrow> (string \<times> string) option" where
  "infer_around x s =
     (case dropWhile (\<lambda>c. c \<noteq> x) s of
        [] \<Rightarrow> None
      | _ # after \<Rightarrow> Some (takeWhile (\<lambda>c. c \<noteq> x) s, after))"

definition ParamDelimiter :: "string list" where
  "ParamDelimiter = [''/'', ''.'', ''-'', '')'', ''('', ''?'', ''&'', '':'', []]"

fun ExtractParamName :: "string \<Rightarrow> string \<Rightarrow> string" where
  "ExtractParamName [] acc = acc"
| "ExtractParamName (c # rest) acc =
     (if [c] \<in> set ParamDelimiter then acc else ExtractParamName rest (acc @ [c]))"

fun SkipParamName :: "string \<Rightarrow> string" where
  "SkipParamName [] = []"
| "SkipParamName (c # rest) =
     (if [c] \<in> set ParamDelimiter then c # rest else SkipParamName rest)"

function ToOpenApiPath :: "string \<Rightarrow> string" where
  "ToOpenApiPath p =
     (case infer_around CHR '':'' p of
        Some (head, afterColon) \<Rightarrow>
          head @ ''{'' @ ExtractParamName afterColon [] @ ''}'' @
            ToOpenApiPath (SkipParamName afterColon)
      | None \<Rightarrow>
          (case infer_around CHR ''?'' p of
             Some (path, query) \<Rightarrow> path
           | None \<Rightarrow> p))"
  by pat_completeness auto
termination
proof (relation "measure length")
  show "wf (measure (length :: string \<Rightarrow> nat))" by simp
next
  fix p :: string and x head afterColon
  assume "infer_around CHR '':'' p = Some x" and "(head, afterColon) = x"
  then obtain d where "dropWhile (\<lambda>c. c \<noteq> CHR '':'') p = d # afterColon"
    by (auto simp: infer_around_def split: list.splits)
  then have "length (d # afterColon) \<le> length p"
    by (metis length_dropWhile_le)
  moreover have "length (SkipParamName s) \<le> length s" for s
    by (induction s) auto
  then have "length (SkipParamName afterColon) \<le> length afterColon" .
  ultimately have "length (SkipParamName afterColon) < length p"
    by simp
  then show "(SkipParamName afterColon, p) \<in> measure length"
    by simp
qed

declare ToOpenApiPath.simps [simp del]

section \<open>Route specifications: \<open>createSpec\<close>\<close>

text \<open>
  The values a configuration holds are \<open>undefined\<close>, strings and plain objects; an object
  is the map of its own enumerable properties. Reading a property that is not there gives
  \<open>undefined\<close>.
\<close>

datatype jsval = Undefined | Str string | Obj "string \<Rightarrow> jsval option"

type_synonym object = "string \<Rightarrow> jsval option"

definition getProp :: "object \<Rightarrow> string \<Rightarrow> jsval" where
  "getProp obj k = (case obj k of None \<Rightarrow> Undefined | Some v \<Rightarrow> v)"

text \<open>The condition of \<open>c ? a : b\<close>: \<open>undefined\<close> and the empty string are falsy.\<close>

fun truthy :: "jsval \<Rightarrow> bool" where
  "truthy Undefined = False"
| "truthy (Str s) = (s \<noteq> [])"
| "truthy (Obj obj) = True"

text \<open>
  What \<open>{...v}\<close> copies: the own enumerable properties of \<open>v\<close>. For a string these are its
  characters under their decimal indices; \<open>undefined\<close> has none.
\<close>

function decimal :: "nat \<Rightarrow> string" where
  "decimal n =
     (if n < 10 then [char_of (48 + n)]
      else decimal (n div 10) @ [char_of (48 + n mod 10)])"
  by pat_completeness auto
termination
  by (relation "measure id") auto

declare decimal.simps [simp del]

fun ownProps :: "jsval \<Rightarrow> object" where
  "ownProps Undefined = Map.empty"
| "ownProps (Str s) = map_of (zip (map decimal [0..<length s]) (map (\<lambda>c. Str [c]) s))"
| "ownProps (Obj obj) = obj"

text \<open>
  \<open>v.searchParams\<close>: a \<open>TypeError\<close> on \<open>undefined\<close>; a string has no such property.
\<close>

fun get_searchParams :: "jsval \<Rightarrow> error + jsval" where
  "get_searchParams Undefined = Inl TypeError"
| "get_searchParams (Str s) = Inr Undefined"
| "get_searchParams (Obj obj) = Inr (getProp obj ''searchParams'')"

record RoutePattern =
  source :: string

text \<open>
  The route of the routing library, as far as \<open>createSpec\<close> reads it: \<open>route.method\<close>
  (the field \<open>route_method\<close> here) and \<open>route.pattern.source\<close>.
\<close>

record Route =
  route_method :: string
  pattern :: RoutePattern

text \<open>
  The \<open>request\<close> entry of \<open>transformedConfig\<close>, and \<open>transformedConfig\<close> itself:
  \<open>{...config, request: \<dots>}\<close>.
\<close>

definition transformedRequest :: "jsval \<Rightarrow> error + jsval" where
  "transformedRequest request =
     (if truthy request
      then (case get_searchParams request of
              Inl e \<Rightarrow> Inl e
            | Inr sp \<Rightarrow> Inr (Obj ((ownProps request)(''query'' \<mapsto> sp))))
      else Inr Undefined)"

definition transformedConfig :: "object \<Rightarrow> error + object" where
  "transformedConfig config =
     (case transformedRequest (getProp config ''request'') of
        Inl e \<Rightarrow> Inl e
      | Inr r \<Rightarrow> Inr (config(''request'' \<mapsto> r)))"

text \<open>
  \<open>createRoute\<close> belongs to the validation library and is a parameter here: \<open>createSpec\<close>
  returns what it returns for the object \<open>{method, path, ...transformedConfig}\<close>, where the
  entries spread last win.
\<close>

definition createSpec :: "(jsval \<Rightarrow> 'r) \<Rightarrow> Route \<Rightarrow> object \<Rightarrow> error + 'r" where
  "createSpec createRoute route config =
     (let pat = source (pattern route) in
      case transformedConfig config of
        Inl e \<Rightarrow> Inl e
      | Inr tc \<Rightarrow>
          (case toOpenApiPath pat of
             Inl e \<Rightarrow> Inl e
           | Inr path \<Rightarrow>
               Inr (createRoute (Obj ([''method'' \<mapsto> Str (toOpenApiMethod (route_method route)),
                                      ''path'' \<mapsto> Str path] ++ tc)))))"

text \<open>
  \<open>v[k]\<close> on a value: the property of an object, \<open>undefined\<close> otherwise. It is used to
  look at one entry of the object that \<open>createRoute\<close> receives.
\<close>

definition propertyOf :: "string \<Rightarrow> jsval \<Rightarrow> jsval" where
  "propertyOf k v = (case v of Obj obj \<Rightarrow> getProp obj k | _ \<Rightarrow> Undefined)"

section \<open>The replacement rule, as the specification words it\<close>

text \<open>
  A path without its query is read as a sequence of tokens: a parameter (a colon and its
  name) or a single other character. The reading is the one the specification describes
  when every name is a non-empty run of word characters that no word character follows,
  and no colon left as a character stands before a word character.
\<close>

datatype token = Param string | Lit char

fun source_text :: "token list \<Rightarrow> string" where
  "source_text [] = []"
| "source_text (Param name # ts) = CHR '':'' # name @ source_text ts"
| "source_text (Lit c # ts) = c # source_text ts"

fun braced_text :: "token list \<Rightarrow> string" where
  "braced_text [] = []"
| "braced_text (Param name # ts) = ''{'' @ name @ ''}'' @ braced_text ts"
| "braced_text (Lit c # ts) = c # braced_text ts"

fun no_word_next :: "token list \<Rightarrow> bool" where
  "no_word_next (Lit c # ts) = (\<not> isWordChar c)"
| "no_word_next ts = True"

fun maximal_tokens :: "token list \<Rightarrow> bool" where
  "maximal_tokens [] = True"
| "maximal_tokens (Param name # ts) =
     (name \<noteq> [] \<and> list_all isWordChar name \<and> no_word_next ts \<and> maximal_tokens ts)"
| "maximal_tokens (Lit c # ts) =
     ((c = CHR '':'' \<longrightarrow> no_word_next ts) \<and> maximal_tokens ts)"

text \<open>Whether a string begins with a word character, so that a colon before it has a name.\<close>

fun starts_with_word :: "string \<Rightarrow> bool" where
  "starts_with_word [] = False"
| "starts_with_word (d # ds) = isWordChar d"

text \<open>
  The patterns on which the type and the function can be compared token by token: a
  delimiter of the type is a character of \<open>ParamDelimiter\<close>; a reading is delimited when
  no character token is a colon or a \<open>?\<close> and a character after a name is a delimiter.
\<close>

definition isDelimiter :: "char \<Rightarrow> bool" where
  "isDelimiter c \<longleftrightarrow> [c] \<in> set ParamDelimiter"

fun delimited :: "token list \<Rightarrow> bool" where
  "delimited [] = True"
| "delimited (Param name # ts) =
     ((case ts of Lit d # _ \<Rightarrow> isDelimiter d | _ \<Rightarrow> True) \<and> delimited ts)"
| "delimited (Lit c # ts) = (c \<noteq> CHR '':'' \<and> c \<noteq> CHR ''?'' \<and> delimited ts)"

declare matchParam.simps [simp del]
declare replace_global.simps [simp del]

section \<open>Properties of the runtime converter\<close>

lemma index0_split_str:
  "index0 (split_str sep s) = Some (takeWhile (\<lambda>c. c \<noteq> sep) s)"
  by (subst split_str.simps) (simp add: index0_def)

lemma toOpenApiPath_eq:
  "toOpenApiPath p = Inr (replace_global (takeWhile (\<lambda>c. c \<noteq> CHR ''?'') p))"
  by (simp add: toOpenApiPath_def index0_split_str)

lemma replace_global_Nil [simp]: "replace_global [] = []"
  by (simp add: replace_global.simps)

lemma replace_global_Cons:
  "replace_global (c # cs) =
     (if c = CHR '':'' \<and> takeWhile isWordChar cs \<noteq> []
      then ''{'' @ takeWhile isWordChar cs @ ''}'' @ replace_global (dropWhile isWordChar cs)
      else c # replace_global cs)"
  by (simp add: replace_global.simps(2) matchParam.simps replacement_def)

lemma not_word_punct [simp]:
  "\<not> isWordChar CHR '':''" "\<not> isWordChar CHR ''{''" "\<not> isWordChar CHR ''}''"
  "\<not> isWordChar CHR ''?''" "\<not> isWordChar CHR ''/''"
  by (simp_all add: isWordChar_def)

lemma takeWhile_stop: "\<not> P y \<Longrightarrow> takeWhile P (xs @ y # ys) = takeWhile P xs"
  by (induction xs) auto

lemma dropWhile_stop: "\<not> P y \<Longrightarrow> dropWhile P (xs @ y # ys) = dropWhile P xs @ y # ys"
  by (induction xs) auto

lemma replace_global_no_colon: "CHR '':'' \<notin> set s \<Longrightarrow> replace_global s = s"
  by (induction s) (auto simp: replace_global_Cons)

text \<open>A colon is never inside a match, so the scan can be cut in front of any colon.\<close>

lemma matchParam_before_colon:
  "matchParam (c # cs @ CHR '':'' # rest) =
     map_option (\<lambda>(g, r). (g, r @ CHR '':'' # rest)) (matchParam (c # cs))"
  by (simp add: matchParam.simps takeWhile_stop dropWhile_stop)

lemma replace_global_at_colon:
  "replace_global (pre @ CHR '':'' # rest) =
     replace_global pre @ replace_global (CHR '':'' # rest)"
proof (induction pre rule: replace_global.induct)
  case 1
  show ?case by simp
next
  case (2 c cs)
  show ?case
  proof (cases "matchParam (c # cs)")
    case None
    with 2(1) [OF None] show ?thesis
      by (simp add: matchParam_before_colon replace_global.simps(2))
  next
    case (Some gr)
    then obtain g r where gr: "matchParam (c # cs) = Some (g, r)"
      by (cases gr) auto
    with 2(2) [OF gr refl] show ?thesis
      by (simp add: matchParam_before_colon replace_global.simps(2))
  qed
qed

lemma strip_query_append:
  "CHR ''?'' \<notin> set a \<Longrightarrow> takeWhile (\<lambda>c. c \<noteq> CHR ''?'') (a @ CHR ''?'' # b) = a"
  by (induction a) auto

lemma strip_query_none:
  "CHR ''?'' \<notin> set a \<Longrightarrow> takeWhile (\<lambda>c. c \<noteq> CHR ''?'') a = a"
  by (induction a) auto

text \<open>
  C6. \<open>toOpenApiPath\<close> returns a string for every input string and never raises: the
  array \<open>split\<close> returns is never empty, and the replacement scan ends. In particular it
  returns on the empty string, on a string without parameters, and on a string whose last
  parameter runs to the end of the string.
\<close>

theorem toOpenApiPath_total:
  "(\<exists>s. toOpenApiPath p = Inr s) \<and>
   toOpenApiPath [] = Inr [] \<and>
   toOpenApiPath ''/users'' = Inr ''/users'' \<and>
   toOpenApiPath ''/users/:id'' = Inr ''/users/{id}''"
  by (simp add: toOpenApiPath_eq replace_global_Cons isWordChar_def)

text \<open>
  C8. On a pattern with no \<open>:\<close> and no \<open>?\<close> the conversion is the identity.
\<close>

theorem toOpenApiPath_identity:
  "CHR '':'' \<notin> set p \<Longrightarrow> CHR ''?'' \<notin> set p \<Longrightarrow> toOpenApiPath p = Inr p"
  by (simp add: toOpenApiPath_eq strip_query_none replace_global_no_colon)

theorem toOpenApiPath_identity_witness:
  "CHR '':'' \<notin> set ''/users/me'' \<and> CHR ''?'' \<notin> set ''/users/me'' \<and>
   toOpenApiPath ''/users/me'' = Inr ''/users/me''"
  using toOpenApiPath_identity [of "''/users/me''"] by simp

text \<open>
  C3. When the pattern contains a \<open>?\<close>, that is when it is \<open>a\<close>, a \<open>?\<close> and \<open>b\<close> with no
  \<open>?\<close> in \<open>a\<close>, converting it gives what converting \<open>a\<close>, the text before the first \<open>?\<close>,
  gives.
\<close>

theorem toOpenApiPath_query_stripped:
  assumes "p = a @ CHR ''?'' # b" and "CHR ''?'' \<notin> set a"
  shows "toOpenApiPath p = toOpenApiPath a"
  using assms by (simp add: toOpenApiPath_eq strip_query_none strip_query_append)

theorem toOpenApiPath_query_stripped_witness:
  "''/users/:id?page&limit'' = ''/users/:id'' @ CHR ''?'' # ''page&limit'' \<and>
   CHR ''?'' \<notin> set ''/users/:id'' \<and>
   toOpenApiPath ''/users/:id?page&limit'' = toOpenApiPath ''/users/:id''"
  using toOpenApiPath_query_stripped [of "''/users/:id?page&limit''" "''/users/:id''" "''page&limit''"]
  by simp

lemma takeWhile_word_Nil: "takeWhile isWordChar s = [] \<longleftrightarrow> \<not> starts_with_word s"
  by (cases s) auto

lemma word_not_colon: "isWordChar c \<Longrightarrow> c \<noteq> CHR '':''"
  by auto

lemma replace_global_word_prefix:
  "list_all isWordChar g \<Longrightarrow> replace_global (g @ xs) = g @ replace_global xs"
  by (induction g) (auto simp: replace_global_Cons)

lemma starts_with_word_replace_global:
  "starts_with_word (replace_global s) = starts_with_word s"
  by (cases s) (auto simp: replace_global_Cons)

lemma replace_global_idem: "replace_global (replace_global s) = replace_global s"
proof (induction "length s" arbitrary: s rule: less_induct)
  case less
  show ?case
  proof (cases s)
    case Nil
    then show ?thesis by simp
  next
    case (Cons c cs)
    show ?thesis
    proof (cases "c = CHR '':'' \<and> takeWhile isWordChar cs \<noteq> []")
      case True
      let ?g = "takeWhile isWordChar cs" and ?r = "dropWhile isWordChar cs"
      have "length ?r < length s"
        using Cons length_dropWhile_le [of isWordChar cs] by simp
      then have IH: "replace_global (replace_global ?r) = replace_global ?r"
        by (rule less)
      have g: "list_all isWordChar ?g"
        by (simp add: list_all_iff) (meson set_takeWhileD)
      have out: "replace_global s = CHR ''{'' # ?g @ CHR ''}'' # replace_global ?r"
        using Cons True by (simp add: replace_global_Cons)
      have "replace_global (CHR ''{'' # ?g @ CHR ''}'' # replace_global ?r) =
            CHR ''{'' # ?g @ CHR ''}'' # replace_global (replace_global ?r)"
        using replace_global_word_prefix [OF g]
        by (simp add: replace_global_Cons)
      with out IH show ?thesis by simp
    next
      case False
      have "length cs < length s" using Cons by simp
      then have IH: "replace_global (replace_global cs) = replace_global cs"
        by (rule less)
      have out: "replace_global s = c # replace_global cs"
        using Cons False by (simp add: replace_global_Cons)
      have "\<not> (c = CHR '':'' \<and> takeWhile isWordChar (replace_global cs) \<noteq> [])"
        using False by (simp add: takeWhile_word_Nil starts_with_word_replace_global)
      then have "replace_global (c # replace_global cs) = c # replace_global (replace_global cs)"
        by (simp add: replace_global_Cons)
      with out IH show ?thesis by simp
    qed
  qed
qed

lemma set_replace_global:
  "set (replace_global s) \<subseteq> set s \<union> {CHR ''{'', CHR ''}''}"
proof (induction "length s" arbitrary: s rule: less_induct)
  case less
  show ?case
  proof (cases s)
    case Nil
    then show ?thesis by simp
  next
    case (Cons c cs)
    have "length (dropWhile isWordChar cs) < length s"
      using Cons length_dropWhile_le [of isWordChar cs] by simp
    then have 1: "set (replace_global (dropWhile isWordChar cs))
        \<subseteq> set (dropWhile isWordChar cs) \<union> {CHR ''{'', CHR ''}''}"
      by (rule less)
    have "length cs < length s" using Cons by simp
    then have 2: "set (replace_global cs) \<subseteq> set cs \<union> {CHR ''{'', CHR ''}''}"
      by (rule less)
    have 3: "set (takeWhile isWordChar cs) \<subseteq> set cs" "set (dropWhile isWordChar cs) \<subseteq> set cs"
      by (auto dest: set_takeWhileD set_dropWhileD)
    show ?thesis
      using Cons 1 2 3 by (auto simp: replace_global_Cons)
  qed
qed

lemma replace_global_no_query:
  "CHR ''?'' \<notin> set s \<Longrightarrow> CHR ''?'' \<notin> set (replace_global s)"
  using set_replace_global [of s] by auto

text \<open>
  C4. On a pattern with no \<open>{\<close> and no \<open>}\<close> the conversion is idempotent: it returns a
  string, and converting that string returns it again. (The scan is idempotent on every
  string, see \<open>replace_global_idem\<close>: a colon that stays is followed by no word character
  before the conversion and by none after it.)
\<close>

theorem toOpenApiPath_idempotent:
  assumes "CHR ''{'' \<notin> set p" and "CHR ''}'' \<notin> set p"
  shows "\<exists>q. toOpenApiPath p = Inr q \<and> toOpenApiPath q = Inr q"
proof -
  let ?a = "takeWhile (\<lambda>c. c \<noteq> CHR ''?'') p"
  have "CHR ''?'' \<notin> set ?a"
    by (auto dest: set_takeWhileD)
  then have "CHR ''?'' \<notin> set (replace_global ?a)"
    by (rule replace_global_no_query)
  then have "toOpenApiPath (replace_global ?a) = Inr (replace_global ?a)"
    by (simp add: toOpenApiPath_eq strip_query_none replace_global_idem)
  then show ?thesis
    by (simp add: toOpenApiPath_eq)
qed

theorem toOpenApiPath_idempotent_witness:
  "CHR ''{'' \<notin> set ''/a/:b?c'' \<and> CHR ''}'' \<notin> set ''/a/:b?c'' \<and>
   (\<exists>q. toOpenApiPath ''/a/:b?c'' = Inr q \<and> toOpenApiPath q = Inr q)"
  using toOpenApiPath_idempotent [of "''/a/:b?c''"] by simp

lemma strip_query_colon:
  "CHR ''?'' \<notin> set pre \<Longrightarrow>
   takeWhile (\<lambda>c. c \<noteq> CHR ''?'') (pre @ CHR '':'' # rest) =
     pre @ CHR '':'' # takeWhile (\<lambda>c. c \<noteq> CHR ''?'') rest"
  by (induction pre) auto

lemma starts_with_word_strip:
  "starts_with_word (takeWhile (\<lambda>c. c \<noteq> CHR ''?'') s) = starts_with_word s"
  by (cases s) auto

lemma replace_global_bare_colon:
  "\<not> starts_with_word s \<Longrightarrow> replace_global (CHR '':'' # s) = CHR '':'' # replace_global s"
  by (simp add: replace_global_Cons takeWhile_word_Nil)

lemma no_word_next_source: "no_word_next ts \<longleftrightarrow> \<not> starts_with_word (source_text ts)"
  by (induction ts rule: no_word_next.induct) auto

lemma takeWhile_name:
  "list_all isWordChar name \<Longrightarrow> \<not> starts_with_word s \<Longrightarrow> takeWhile isWordChar (name @ s) = name"
  by (induction name) (auto simp: takeWhile_word_Nil)

lemma dropWhile_name:
  "list_all isWordChar name \<Longrightarrow> \<not> starts_with_word s \<Longrightarrow> dropWhile isWordChar (name @ s) = s"
  by (induction name) (auto, cases s, auto)

lemma dropWhile_no_word: "\<not> starts_with_word (dropWhile isWordChar cs)"
  by (induction cs) auto

lemma replace_global_tokens:
  "maximal_tokens ts \<Longrightarrow> replace_global (source_text ts) = braced_text ts"
proof (induction ts)
  case Nil
  show ?case by simp
next
  case (Cons t ts)
  show ?case
  proof (cases t)
    case (Param name)
    with Cons show ?thesis
      by (simp add: replace_global_Cons takeWhile_name dropWhile_name no_word_next_source)
  next
    case (Lit c)
    with Cons show ?thesis
      by (auto simp: replace_global_Cons takeWhile_word_Nil no_word_next_source)
  qed
qed

lemma tokens_exist: "\<exists>ts. maximal_tokens ts \<and> source_text ts = s"
proof (induction "length s" arbitrary: s rule: less_induct)
  case less
  show ?case
  proof (cases s)
    case Nil
    have "maximal_tokens [] \<and> source_text [] = []" by simp
    with Nil show ?thesis by blast
  next
    case (Cons c cs)
    show ?thesis
    proof (cases "c = CHR '':'' \<and> starts_with_word cs")
      case True
      let ?g = "takeWhile isWordChar cs" and ?r = "dropWhile isWordChar cs"
      have "length ?r < length s"
        using Cons length_dropWhile_le [of isWordChar cs] by simp
      then obtain ts where ts: "maximal_tokens ts" "source_text ts = ?r"
        using less by blast
      have nw: "\<not> starts_with_word ?r"
        by (rule dropWhile_no_word)
      have "no_word_next ts"
        using ts(2) nw by (simp add: no_word_next_source)
      moreover have "list_all isWordChar ?g"
        by (simp add: list_all_iff) (meson set_takeWhileD)
      moreover have "?g \<noteq> []"
        using True by (simp add: takeWhile_word_Nil)
      ultimately have "maximal_tokens (Param ?g # ts) \<and> source_text (Param ?g # ts) = s"
        using ts Cons True by simp
      then show ?thesis by blast
    next
      case False
      have "length cs < length s" using Cons by simp
      then obtain ts where ts: "maximal_tokens ts" "source_text ts = cs"
        using less by blast
      have "c = CHR '':'' \<longrightarrow> no_word_next ts"
        using False ts(2) by (simp add: no_word_next_source)
      then have "maximal_tokens (Lit c # ts) \<and> source_text (Lit c # ts) = s"
        using ts Cons by simp
      then show ?thesis by blast
    qed
  qed
qed

text \<open>
  C2. After the query is stripped (the text before the first \<open>?\<close> is kept), the path has a
  reading as maximal tokens, and for every such reading \<open>toOpenApiPath\<close> returns its braced
  text: each colon with its maximal non-empty run of word characters becomes the run in
  braces, and every other character is copied in place.
\<close>

theorem toOpenApiPath_replaces_params:
  "(\<exists>ts. maximal_tokens ts \<and> source_text ts = takeWhile (\<lambda>c. c \<noteq> CHR ''?'') p) \<and>
   (\<forall>ts. maximal_tokens ts \<and> source_text ts = takeWhile (\<lambda>c. c \<noteq> CHR ''?'') p \<longrightarrow>
      toOpenApiPath p = Inr (braced_text ts))"
  using tokens_exist [of "takeWhile (\<lambda>c. c \<noteq> CHR ''?'') p"]
  by (auto simp: toOpenApiPath_eq replace_global_tokens [symmetric])

theorem toOpenApiPath_replaces_params_witness:
  "maximal_tokens [Lit CHR ''/'', Lit CHR ''u'', Param ''id'', Lit CHR ''/'', Lit CHR '':'', Lit CHR ''.''] \<and>
   source_text [Lit CHR ''/'', Lit CHR ''u'', Param ''id'', Lit CHR ''/'', Lit CHR '':'', Lit CHR ''.'']
     = takeWhile (\<lambda>c. c \<noteq> CHR ''?'') ''/u:id/:.?q'' \<and>
   toOpenApiPath ''/u:id/:.?q'' = Inr ''/u{id}/:.''"
  using toOpenApiPath_replaces_params [of "''/u:id/:.?q''", THEN conjunct2, THEN spec,
      of "[Lit CHR ''/'', Lit CHR ''u'', Param ''id'', Lit CHR ''/'', Lit CHR '':'', Lit CHR ''.'']"]
  by (simp add: isWordChar_def)

text \<open>
  C9, as the code has it. A colon that stands before any \<open>?\<close> and is followed by the end of
  the string or by a character outside \<open>[A-Za-z0-9_]\<close> is kept, and no empty braces are
  written: the result is the conversion of the text before the colon, the colon, and the
  conversion of the text after it. The character after the colon is kept too, unless it
  is a \<open>?\<close> (the query is dropped) or a colon that starts a parameter of its own. So
  \<open>"/a/:/b"\<close> and \<open>"/a/:"\<close> are returned as they are.
\<close>

theorem bare_colon_kept:
  "(CHR ''?'' \<notin> set pre \<and> \<not> starts_with_word rest \<longrightarrow>
     (\<exists>a b. toOpenApiPath pre = Inr a \<and> toOpenApiPath rest = Inr b \<and>
        toOpenApiPath (pre @ CHR '':'' # rest) = Inr (a @ CHR '':'' # b) \<and>
        (\<forall>d ds. rest = d # ds \<and> d \<noteq> CHR ''?'' \<and> \<not> (d = CHR '':'' \<and> starts_with_word ds) \<longrightarrow>
           (\<exists>c. toOpenApiPath ds = Inr c \<and> b = d # c)))) \<and>
   toOpenApiPath ''/a/:/b'' = Inr ''/a/:/b'' \<and>
   toOpenApiPath ''/a/:'' = Inr ''/a/:''"
proof -
  let ?strip = "takeWhile (\<lambda>c. c \<noteq> CHR ''?'')"
  have colon: "replace_global (?strip (pre @ CHR '':'' # rest)) =
        replace_global pre @ CHR '':'' # replace_global (?strip rest)"
    if "CHR ''?'' \<notin> set pre" and "\<not> starts_with_word rest"
    using that
    by (simp add: strip_query_colon replace_global_at_colon replace_global_bare_colon
        starts_with_word_strip)
  have next_char: "replace_global (?strip (d # ds)) = d # replace_global (?strip ds)"
    if "d \<noteq> CHR ''?''" and "\<not> (d = CHR '':'' \<and> starts_with_word ds)" for d ds
    using that by (auto simp: replace_global_Cons takeWhile_word_Nil starts_with_word_strip)
  have examples: "toOpenApiPath ''/a/:/b'' = Inr ''/a/:/b''" "toOpenApiPath ''/a/:'' = Inr ''/a/:''"
    by (simp_all add: toOpenApiPath_eq replace_global_Cons isWordChar_def)
  show ?thesis
    using colon next_char examples by (auto simp: toOpenApiPath_eq strip_query_none)
qed

theorem bare_colon_kept_witness:
  "CHR ''?'' \<notin> set ''/a/'' \<and> \<not> starts_with_word ''-b'' \<and>
   (\<exists>a b. toOpenApiPath ''/a/'' = Inr a \<and> toOpenApiPath ''-b'' = Inr b \<and>
      toOpenApiPath ''/a/:-b'' = Inr (a @ CHR '':'' # b) \<and>
      (\<exists>c. toOpenApiPath ''b'' = Inr c \<and> b = CHR ''-'' # c))"
  using bare_colon_kept [of "''/a/''" "''-b''", THEN conjunct1]
  by (simp add: isWordChar_def)

text \<open>
  C9 as it is worded fails in three ways: the character after the colon is itself a colon
  that starts a parameter and is rewritten; it is the \<open>?\<close> that starts the query and is
  dropped; the colon stands in the query and is dropped with it.
\<close>

theorem bare_colon_counterexample:
  "\<not> isWordChar CHR '':'' \<and> toOpenApiPath ''/a/::b'' = Inr ''/a/:{b}'' \<and>
   \<not> isWordChar CHR ''?'' \<and> toOpenApiPath ''/a/:?b'' = Inr ''/a/:'' \<and>
   \<not> isWordChar CHR ''/'' \<and> toOpenApiPath ''/a?b:/c'' = Inr ''/a''"
  by (simp add: toOpenApiPath_eq replace_global_Cons isWordChar_def)

section \<open>The method name\<close>

lemma toLowerCase_GET: "toLowerCase ''GET'' = ''get''"
  by code_simp

lemma toLowerCase_ANY: "toLowerCase ''ANY'' = ''any''"
  by code_simp

lemma toLowerCase_verbs:
  "toLowerCase ''PATCH'' = ''patch''" "toLowerCase ''POST'' = ''post''"
  "toLowerCase ''PUT'' = ''put''" "toLowerCase ''DELETE'' = ''delete''"
  by code_simp+

lemma toOpenApiMethod_eq:
  "toOpenApiMethod m = (if m = ''ANY'' then ''get'' else toLowerCase m)"
  by (simp add: toOpenApiMethod_def toLowerCase_GET)

text \<open>
  C7. \<open>toOpenApiMethod\<close> returns the lowercase form of the verb, except that \<open>"ANY"\<close>
  gives \<open>"get"\<close>; so \<open>"GET"\<close> gives \<open>"get"\<close>, \<open>"ANY"\<close> gives \<open>"get"\<close> and \<open>"PATCH"\<close> gives
  \<open>"patch"\<close>. Nothing else is done to the verb: its length stays.
\<close>

theorem toOpenApiMethod_lowercase:
  "toOpenApiMethod m = (if m = ''ANY'' then ''get'' else toLowerCase m) \<and>
   toOpenApiMethod ''GET'' = ''get'' \<and>
   toOpenApiMethod ''ANY'' = ''get'' \<and>
   toOpenApiMethod ''PATCH'' = ''patch'' \<and>
   toOpenApiMethod ''POST'' = ''post'' \<and>
   toOpenApiMethod ''PUT'' = ''put'' \<and>
   toOpenApiMethod ''DELETE'' = ''delete'' \<and>
   length (toOpenApiMethod m) = length m"
  by (simp add: toOpenApiMethod_eq toLowerCase_GET toLowerCase_verbs) (simp add: toLowerCase_def)

section \<open>The type-level converter against the runtime converter\<close>

lemma word_not_delimiter: "isWordChar c \<Longrightarrow> \<not> isDelimiter c"
  by (auto simp: isDelimiter_def ParamDelimiter_def isWordChar_def)

lemma ExtractParamName_eq:
  "ExtractParamName s acc = acc @ takeWhile (\<lambda>c. \<not> isDelimiter c) s"
  by (induction s arbitrary: acc) (auto simp: isDelimiter_def)

lemma SkipParamName_eq: "SkipParamName s = dropWhile (\<lambda>c. \<not> isDelimiter c) s"
  by (induction s) (auto simp: isDelimiter_def)

lemma ToOpenApiPath_Nil: "ToOpenApiPath [] = []"
  by (simp add: ToOpenApiPath.simps infer_around_def)

lemma ToOpenApiPath_colon:
  "ToOpenApiPath (CHR '':'' # s) =
     ''{'' @ ExtractParamName s [] @ ''}'' @ ToOpenApiPath (SkipParamName s)"
  by (subst ToOpenApiPath.simps) (simp add: infer_around_def)

lemma infer_around_Cons:
  "c \<noteq> x \<Longrightarrow> infer_around x (c # s) = map_option (\<lambda>(a, b). (c # a, b)) (infer_around x s)"
  by (cases "dropWhile (\<lambda>c. c \<noteq> x) s")
    (simp_all add: infer_around_def del: dropWhile_eq_Nil_conv)

lemma infer_around_hit: "infer_around x (x # s) = Some ([], s)"
  by (simp add: infer_around_def)

lemma infer_around_None: "x \<notin> set s \<Longrightarrow> infer_around x s = None"
  by (induction s) (auto simp: infer_around_Cons, simp add: infer_around_def)

lemma ToOpenApiPath_plain:
  "c \<noteq> CHR '':'' \<Longrightarrow> c \<noteq> CHR ''?'' \<Longrightarrow> ToOpenApiPath (c # s) = c # ToOpenApiPath s"
  by (subst ToOpenApiPath.simps, subst (2) ToOpenApiPath.simps)
    (simp add: infer_around_Cons split: option.splits)

lemma ToOpenApiPath_query:
  "CHR '':'' \<notin> set q \<Longrightarrow> ToOpenApiPath (CHR ''?'' # q) = []"
  by (subst ToOpenApiPath.simps) (simp add: infer_around_None infer_around_hit)

lemma takeWhile_not_delimiter:
  "list_all isWordChar name \<Longrightarrow> (case s of [] \<Rightarrow> True | d # _ \<Rightarrow> isDelimiter d) \<Longrightarrow>
   takeWhile (\<lambda>c. \<not> isDelimiter c) (name @ s) = name"
  by (induction name) (auto simp: word_not_delimiter split: list.splits)

lemma dropWhile_not_delimiter:
  "list_all isWordChar name \<Longrightarrow> (case s of [] \<Rightarrow> True | d # _ \<Rightarrow> isDelimiter d) \<Longrightarrow>
   dropWhile (\<lambda>c. \<not> isDelimiter c) (name @ s) = s"
  by (induction name) (auto simp: word_not_delimiter split: list.splits)

lemma delimited_next:
  "delimited (Param name # ts) \<Longrightarrow> q = [] \<or> hd q = CHR ''?'' \<Longrightarrow>
   (case source_text ts @ q of [] \<Rightarrow> True | d # _ \<Rightarrow> isDelimiter d)"
  by (cases ts rule: source_text.cases; cases q)
    (auto simp: isDelimiter_def ParamDelimiter_def)

lemma ToOpenApiPath_tokens:
  assumes "maximal_tokens ts" and "delimited ts"
    and "q = [] \<or> (\<exists>q'. q = CHR ''?'' # q' \<and> CHR '':'' \<notin> set q')"
  shows "ToOpenApiPath (source_text ts @ q) = braced_text ts"
  using assms(1,2)
proof (induction ts)
  case Nil
  with assms(3) show ?case
    by (auto simp: ToOpenApiPath_Nil ToOpenApiPath_query)
next
  case (Cons t ts)
  show ?case
  proof (cases t)
    case (Lit c)
    with Cons show ?thesis
      by (simp add: ToOpenApiPath_plain)
  next
    case (Param name)
    have q: "q = [] \<or> hd q = CHR ''?''"
      using assms(3) by auto
    have d: "case source_text ts @ q of [] \<Rightarrow> True | d # _ \<Rightarrow> isDelimiter d"
      using Cons.prems(2) q unfolding Param by (rule delimited_next)
    have n: "list_all isWordChar name"
      using Cons.prems(1) Param by simp
    have "ToOpenApiPath (CHR '':'' # name @ source_text ts @ q) =
        ''{'' @ name @ ''}'' @ ToOpenApiPath (source_text ts @ q)"
      using takeWhile_not_delimiter [OF n d] dropWhile_not_delimiter [OF n d]
      by (simp add: ToOpenApiPath_colon ExtractParamName_eq SkipParamName_eq)
    with Cons Param show ?thesis
      by simp
  qed
qed

lemma toOpenApiPath_tokens:
  assumes "maximal_tokens ts" and "delimited ts"
    and "q = [] \<or> (\<exists>q'. q = CHR ''?'' # q' \<and> CHR '':'' \<notin> set q')"
  shows "toOpenApiPath (source_text ts @ q) = Inr (braced_text ts)"
proof -
  have "CHR ''?'' \<notin> set (source_text ts)"
    using assms(1,2)
    by (induction ts rule: source_text.induct) (auto simp: list_all_iff)
  then have "takeWhile (\<lambda>c. c \<noteq> CHR ''?'') (source_text ts @ q) = source_text ts"
    using assms(3) by (auto simp: strip_query_none strip_query_append)
  then show ?thesis
    using assms(1) by (simp add: toOpenApiPath_eq replace_global_tokens)
qed

text \<open>
  On a pattern that reads as maximal tokens with every name ended by a delimiter, a colon
  or the end of the path, with no other colon or \<open>?\<close> in the path, and with no colon in
  the query, the type is the string the function returns.
\<close>

lemma type_level_agrees:
  assumes "maximal_tokens ts" and "delimited ts"
    and "q = [] \<or> (\<exists>q'. q = CHR ''?'' # q' \<and> CHR '':'' \<notin> set q')"
  shows "toOpenApiPath (source_text ts @ q) = Inr (ToOpenApiPath (source_text ts @ q))"
  using assms by (simp only: toOpenApiPath_tokens ToOpenApiPath_tokens)

text \<open>On the patterns of the test suite the two converters give the same string.\<close>

lemma type_level_agrees_on_tests:
  "toOpenApiPath ''/users/:id'' = Inr (ToOpenApiPath ''/users/:id'')"
  "toOpenApiPath ''/users/:userId/posts/:postId'' =
     Inr (ToOpenApiPath ''/users/:userId/posts/:postId'')"
  "toOpenApiPath ''/users'' = Inr (ToOpenApiPath ''/users'')"
  "toOpenApiPath ''/users?page&limit'' = Inr (ToOpenApiPath ''/users?page&limit'')"
  "toOpenApiPath ''/users/:id?includeDeleted'' = Inr (ToOpenApiPath ''/users/:id?includeDeleted'')"
  by (simp_all add: toOpenApiPath_eq replace_global_Cons isWordChar_def
      ToOpenApiPath.simps infer_around_def ParamDelimiter_def)

text \<open>
  C1 does not hold of the code. The type ends a parameter name at a delimiter of
  \<open>ParamDelimiter\<close>, the regular expression at the first character outside
  \<open>[A-Za-z0-9_]\<close>: on \<open>"/pkg/:name@latest"\<close> the function returns \<open>"/pkg/{name}@latest"\<close>
  and the type is \<open>"/pkg/{name@latest}"\<close>.
\<close>

theorem type_level_diverges:
  "toOpenApiPath ''/pkg/:name@latest'' = Inr ''/pkg/{name}@latest'' \<and>
   ToOpenApiPath ''/pkg/:name@latest'' = ''/pkg/{name@latest}'' \<and>
   toOpenApiPath ''/pkg/:name@latest'' \<noteq> Inr (ToOpenApiPath ''/pkg/:name@latest'')"
  by (simp add: toOpenApiPath_eq replace_global_Cons isWordChar_def
      ToOpenApiPath.simps infer_around_def ParamDelimiter_def)

text \<open>
  Two more ways in which they differ: the type writes empty braces for a colon without a
  name, and it strips the query only from the text after the last colon.
\<close>

lemma type_level_diverges_more:
  "toOpenApiPath ''/a/:'' = Inr ''/a/:''" "ToOpenApiPath ''/a/:'' = ''/a/{}''"
  "toOpenApiPath ''/search?q=:term'' = Inr ''/search''"
  "ToOpenApiPath ''/search?q=:term'' = ''/search?q={term}''"
  by (simp_all add: toOpenApiPath_eq replace_global_Cons isWordChar_def
      ToOpenApiPath.simps infer_around_def ParamDelimiter_def)

section \<open>Properties of \<open>createSpec\<close>\<close>

lemma createSpec_Inr:
  assumes "transformedRequest (getProp config ''request'') = Inr r"
      and "toOpenApiPath (source (pattern route)) = Inr p"
  shows "createSpec createRoute route config =
           Inr (createRoute (Obj ([''method'' \<mapsto> Str (toOpenApiMethod (route_method route)),
                                  ''path'' \<mapsto> Str p] ++ config(''request'' \<mapsto> r))))"
  using assms by (simp add: createSpec_def transformedConfig_def)

lemma transformedRequest_Obj:
  "transformedRequest (Obj req) = Inr (Obj (req(''query'' \<mapsto> getProp req ''searchParams'')))"
  by (simp add: transformedRequest_def)

lemma transformedRequest_total: "\<exists>r. transformedRequest v = Inr r"
  by (cases v) (simp_all add: transformedRequest_def)

lemma transformedRequest_Undefined: "transformedRequest Undefined = Inr Undefined"
  by (simp add: transformedRequest_def)

text \<open>
  C10. When the configuration's \<open>request\<close> is an object, \<open>createRoute\<close> receives a request
  object that still has the \<open>searchParams\<close> entry of the original and has a \<open>query\<close> entry
  with the value of \<open>searchParams\<close>, which is \<open>undefined\<close> when \<open>searchParams\<close> is absent;
  every other entry is the original's. When \<open>request\<close> is absent (or \<open>undefined\<close>),
  \<open>createRoute\<close> receives \<open>request\<close> as \<open>undefined\<close>.
\<close>

theorem createSpec_request:
  "(config ''request'' = Some (Obj req) \<longrightarrow>
      (\<exists>fwd req'. createSpec createRoute route config = Inr (createRoute (Obj fwd)) \<and>
         fwd ''request'' = Some (Obj req') \<and>
         req' ''searchParams'' = req ''searchParams'' \<and>
         req' ''query'' = Some (getProp req ''searchParams'') \<and>
         (req ''searchParams'' = None \<longrightarrow> req' ''query'' = Some Undefined) \<and>
         (\<forall>k. k \<noteq> ''query'' \<longrightarrow> req' k = req k))) \<and>
   (config ''request'' = None \<or> config ''request'' = Some Undefined \<longrightarrow>
      (\<exists>fwd. createSpec createRoute route config = Inr (createRoute (Obj fwd)) \<and>
         fwd ''request'' = Some Undefined))"
proof (intro conjI impI)
  obtain p where p: "toOpenApiPath (source (pattern route)) = Inr p"
    by (simp add: toOpenApiPath_eq)
  let ?base = "[''method'' \<mapsto> Str (toOpenApiMethod (route_method route)), ''path'' \<mapsto> Str p]"
  {
    assume req: "config ''request'' = Some (Obj req)"
    let ?req' = "req(''query'' \<mapsto> getProp req ''searchParams'')"
    have "getProp config ''request'' = Obj req"
      using req by (simp add: getProp_def)
    then have "transformedRequest (getProp config ''request'') = Inr (Obj ?req')"
      by (simp add: transformedRequest_Obj)
    then have 1: "createSpec createRoute route config =
        Inr (createRoute (Obj (?base ++ config(''request'' \<mapsto> Obj ?req'))))"
      using p by (rule createSpec_Inr)
    have 2: "(?base ++ config(''request'' \<mapsto> Obj ?req')) ''request'' = Some (Obj ?req')"
      by simp
    have 3: "?req' ''searchParams'' = req ''searchParams''"
      by simp
    have 4: "?req' ''query'' = Some (getProp req ''searchParams'')"
      by simp
    have 5: "req ''searchParams'' = None \<longrightarrow> ?req' ''query'' = Some Undefined"
      by (simp add: getProp_def)
    have 6: "\<forall>k. k \<noteq> ''query'' \<longrightarrow> ?req' k = req k"
      by simp
    show "\<exists>fwd req'. createSpec createRoute route config = Inr (createRoute (Obj fwd)) \<and>
         fwd ''request'' = Some (Obj req') \<and>
         req' ''searchParams'' = req ''searchParams'' \<and>
         req' ''query'' = Some (getProp req ''searchParams'') \<and>
         (req ''searchParams'' = None \<longrightarrow> req' ''query'' = Some Undefined) \<and>
         (\<forall>k. k \<noteq> ''query'' \<longrightarrow> req' k = req k)"
      apply (rule exI [of _ "?base ++ config(''request'' \<mapsto> Obj ?req')"])
      apply (rule exI [of _ ?req'])
      using 1 2 3 4 5 6 apply (intro conjI)
           apply assumption+
      done
  }
  {
    assume "config ''request'' = None \<or> config ''request'' = Some Undefined"
    then have "getProp config ''request'' = Undefined"
      by (auto simp: getProp_def)
    then have "transformedRequest (getProp config ''request'') = Inr Undefined"
      by (simp add: transformedRequest_Undefined)
    then have 1: "createSpec createRoute route config =
        Inr (createRoute (Obj (?base ++ config(''request'' \<mapsto> Undefined))))"
      using p by (rule createSpec_Inr)
    have 2: "(?base ++ config(''request'' \<mapsto> Undefined)) ''request'' = Some Undefined"
      by simp
    show "\<exists>fwd. createSpec createRoute route config = Inr (createRoute (Obj fwd)) \<and>
         fwd ''request'' = Some Undefined"
      apply (rule exI [of _ "?base ++ config(''request'' \<mapsto> Undefined)"])
      using 1 2 apply (intro conjI)
       apply assumption+
      done
  }
qed


theorem createSpec_request_witness:
  "(map_of [(''request'', Obj (map_of [(''searchParams'', Str ''S'')]))] ''request''
      = Some (Obj (map_of [(''searchParams'', Str ''S'')])) \<and>
    (\<exists>fwd req'.
       createSpec (propertyOf ''request'')
         \<lparr>route_method = ''GET'', pattern = \<lparr>source = ''/users''\<rparr>\<rparr>
         (map_of [(''request'', Obj (map_of [(''searchParams'', Str ''S'')]))])
         = Inr (propertyOf ''request'' (Obj fwd)) \<and>
       fwd ''request'' = Some (Obj req') \<and>
       req' ''searchParams'' = Some (Str ''S'') \<and>
       req' ''query'' = Some (Str ''S''))) \<and>
   ((map_of [(''summary'', Str ''list'')] ''request'' = None \<or>
     map_of [(''summary'', Str ''list'')] ''request'' = Some Undefined) \<and>
    (\<exists>fwd.
       createSpec (propertyOf ''request'')
         \<lparr>route_method = ''GET'', pattern = \<lparr>source = ''/users''\<rparr>\<rparr>
         (map_of [(''summary'', Str ''list'')])
         = Inr (propertyOf ''request'' (Obj fwd)) \<and>
       fwd ''request'' = Some Undefined))"
proof -
  let ?req = "map_of [(''searchParams'', Str ''S'')]"
  let ?config = "map_of [(''request'', Obj ?req)]"
  let ?bare = "map_of [(''summary'', Str ''list'')]"
  let ?route = "\<lparr>route_method = ''GET'', pattern = \<lparr>source = ''/users''\<rparr>\<rparr>"
  have r: "?config ''request'' = Some (Obj ?req)"
    by simp
  have n: "?bare ''request'' = None \<or> ?bare ''request'' = Some Undefined"
    by simp
  from createSpec_request [of ?config ?req "propertyOf ''request''" ?route,
      THEN conjunct1, THEN mp, OF r]
  obtain fwd req' where
    1: "createSpec (propertyOf ''request'') ?route ?config = Inr (propertyOf ''request'' (Obj fwd))" and
    2: "fwd ''request'' = Some (Obj req')" and
    3: "req' ''searchParams'' = ?req ''searchParams''" and
    4: "req' ''query'' = Some (getProp ?req ''searchParams'')"
    by (elim exE conjE)
  from 3 have m3: "req' ''searchParams'' = Some (Str ''S'')"
    by simp
  from 4 have m4: "req' ''query'' = Some (Str ''S'')"
    by (simp add: getProp_def)
  have A: "\<exists>fwd req'.
       createSpec (propertyOf ''request'') ?route ?config = Inr (propertyOf ''request'' (Obj fwd)) \<and>
       fwd ''request'' = Some (Obj req') \<and>
       req' ''searchParams'' = Some (Str ''S'') \<and>
       req' ''query'' = Some (Str ''S'')"
    apply (rule exI [of _ fwd])
    apply (rule exI [of _ req'])
    apply (intro conjI)
    apply (rule 1)
    apply (rule 2)
    apply (rule m3)
    apply (rule m4)
    done
  note B = createSpec_request [of ?bare ?req "propertyOf ''request''" ?route,
      THEN conjunct2, THEN mp, OF n]
  show ?thesis
    by (intro conjI r n A B)
qed

lemma fwd_method: "config ''method'' = None \<Longrightarrow>
   ([''method'' \<mapsto> m, ''path'' \<mapsto> p] ++ config(''request'' \<mapsto> r)) ''method'' = Some m"
  by (simp add: map_add_def)

lemma fwd_path: "config ''path'' = None \<Longrightarrow>
   ([''method'' \<mapsto> m, ''path'' \<mapsto> p] ++ config(''request'' \<mapsto> r)) ''path'' = Some p"
  by (simp add: map_add_def)

lemma fwd_request:
   "([''method'' \<mapsto> m, ''path'' \<mapsto> p] ++ config(''request'' \<mapsto> r)) ''request'' = Some r"
  by simp

lemma fwd_other: "k \<noteq> ''method'' \<Longrightarrow> k \<noteq> ''path'' \<Longrightarrow> k \<noteq> ''request'' \<Longrightarrow>
   ([''method'' \<mapsto> m, ''path'' \<mapsto> p] ++ config(''request'' \<mapsto> r)) k = config k"
  by (cases "config k") (simp_all add: map_add_def)

text \<open>
  C5, as the code has it. For a configuration with no \<open>method\<close> and no \<open>path\<close> entry of
  its own, \<open>createRoute\<close> receives an object whose \<open>method\<close> is the lowercase verb of the
  route (\<open>"get"\<close> for \<open>"ANY"\<close>), whose \<open>path\<close> is \<open>toOpenApiPath\<close> of the route's pattern,
  whose \<open>request\<close>, when the configuration's is an object, has the value of its
  \<open>searchParams\<close> under \<open>query\<close> as well as under \<open>searchParams\<close>, and whose other entries
  are the configuration's.
\<close>

theorem createSpec_forwards:
  "config ''method'' = None \<and> config ''path'' = None \<longrightarrow>
     (\<exists>fwd p. createSpec createRoute route config = Inr (createRoute (Obj fwd)) \<and>
        fwd ''method'' = Some (Str (if route_method route = ''ANY'' then ''get''
                                   else toLowerCase (route_method route))) \<and>
        toOpenApiPath (source (pattern route)) = Inr p \<and>
        fwd ''path'' = Some (Str p) \<and>
        (\<forall>req. config ''request'' = Some (Obj req) \<longrightarrow>
           (\<exists>req'. fwd ''request'' = Some (Obj req') \<and>
              req' ''query'' = Some (getProp req ''searchParams'') \<and>
              req' ''searchParams'' = req ''searchParams'')) \<and>
        (\<forall>k. k \<noteq> ''method'' \<and> k \<noteq> ''path'' \<and> k \<noteq> ''request'' \<longrightarrow> fwd k = config k))"
proof
  assume free: "config ''method'' = None \<and> config ''path'' = None"
  obtain p where p: "toOpenApiPath (source (pattern route)) = Inr p"
    by (simp add: toOpenApiPath_eq)
  obtain r where r: "transformedRequest (getProp config ''request'') = Inr r"
    using transformedRequest_total [of "getProp config ''request''"] by (elim exE)
  let ?fwd = "[''method'' \<mapsto> Str (toOpenApiMethod (route_method route)), ''path'' \<mapsto> Str p]
                ++ config(''request'' \<mapsto> r)"
  have 1: "createSpec createRoute route config = Inr (createRoute (Obj ?fwd))"
    using r p by (rule createSpec_Inr)
  have "?fwd ''method'' = Some (Str (toOpenApiMethod (route_method route)))"
    using free by (intro fwd_method) simp
  then have 2: "?fwd ''method'' = Some (Str (if route_method route = ''ANY'' then ''get''
                                   else toLowerCase (route_method route)))"
    by (simp only: toOpenApiMethod_eq)
  have 3: "?fwd ''path'' = Some (Str p)"
    using free by (intro fwd_path) simp
  have 4: "\<exists>req'. ?fwd ''request'' = Some (Obj req') \<and>
              req' ''query'' = Some (getProp req ''searchParams'') \<and>
              req' ''searchParams'' = req ''searchParams''"
    if "config ''request'' = Some (Obj req)" for req
  proof -
    have "getProp config ''request'' = Obj req"
      using that by (simp add: getProp_def)
    with r have "r = Obj (req(''query'' \<mapsto> getProp req ''searchParams''))"
      by (simp add: transformedRequest_Obj)
    then have "?fwd ''request'' = Some (Obj (req(''query'' \<mapsto> getProp req ''searchParams'')))"
      by (simp only: fwd_request)
    moreover have "(req(''query'' \<mapsto> getProp req ''searchParams'')) ''query''
        = Some (getProp req ''searchParams'')"
      by simp
    moreover have "(req(''query'' \<mapsto> getProp req ''searchParams'')) ''searchParams''
        = req ''searchParams''"
      by simp
    ultimately show ?thesis
      by (intro exI [of _ "req(''query'' \<mapsto> getProp req ''searchParams'')"] conjI)
  qed
  have 5: "?fwd k = config k" if "k \<noteq> ''method'' \<and> k \<noteq> ''path'' \<and> k \<noteq> ''request''" for k
    using that by (intro fwd_other) simp_all
  show "\<exists>fwd p. createSpec createRoute route config = Inr (createRoute (Obj fwd)) \<and>
        fwd ''method'' = Some (Str (if route_method route = ''ANY'' then ''get''
                                   else toLowerCase (route_method route))) \<and>
        toOpenApiPath (source (pattern route)) = Inr p \<and>
        fwd ''path'' = Some (Str p) \<and>
        (\<forall>req. config ''request'' = Some (Obj req) \<longrightarrow>
           (\<exists>req'. fwd ''request'' = Some (Obj req') \<and>
              req' ''query'' = Some (getProp req ''searchParams'') \<and>
              req' ''searchParams'' = req ''searchParams'')) \<and>
        (\<forall>k. k \<noteq> ''method'' \<and> k \<noteq> ''path'' \<and> k \<noteq> ''request'' \<longrightarrow> fwd k = config k)"
    apply (rule exI [of _ ?fwd])
    apply (rule exI [of _ p])
    apply (intro conjI allI impI)
    apply (rule 1)
    apply (rule 2)
    apply (rule p)
    apply (rule 3)
    apply (erule 4)
    apply (erule 5)
    done
qed

theorem createSpec_forwards_witness:
  "(map_of [(''request'', Obj (map_of [(''searchParams'', Str ''S'')]))] ''method'' = None \<and>
    map_of [(''request'', Obj (map_of [(''searchParams'', Str ''S'')]))] ''path'' = None) \<and>
   (\<exists>fwd p.
      createSpec (propertyOf ''request'')
        \<lparr>route_method = ''GET'', pattern = \<lparr>source = ''/users/:id''\<rparr>\<rparr>
        (map_of [(''request'', Obj (map_of [(''searchParams'', Str ''S'')]))])
        = Inr (propertyOf ''request'' (Obj fwd)) \<and>
      fwd ''method'' = Some (Str ''get'') \<and>
      toOpenApiPath ''/users/:id'' = Inr p \<and>
      fwd ''path'' = Some (Str p) \<and>
      (\<exists>req'. fwd ''request'' = Some (Obj req') \<and> req' ''query'' = Some (Str ''S'') \<and>
         req' ''searchParams'' = Some (Str ''S'')))"
proof -
  let ?req = "map_of [(''searchParams'', Str ''S'')]"
  let ?config = "map_of [(''request'', Obj ?req)]"
  let ?route = "\<lparr>route_method = ''GET'', pattern = \<lparr>source = ''/users/:id''\<rparr>\<rparr>"
  have h: "?config ''method'' = None \<and> ?config ''path'' = None"
    by simp
  have r: "?config ''request'' = Some (Obj ?req)"
    by simp
  from createSpec_forwards [of ?config "propertyOf ''request''" ?route, THEN mp, OF h]
  obtain fwd p where
    1: "createSpec (propertyOf ''request'') ?route ?config = Inr (propertyOf ''request'' (Obj fwd))" and
    2: "fwd ''method'' = Some (Str (if route_method ?route = ''ANY'' then ''get''
          else toLowerCase (route_method ?route)))" and
    3: "toOpenApiPath (source (pattern ?route)) = Inr p" and
    4: "fwd ''path'' = Some (Str p)" and
    5: "\<forall>req. ?config ''request'' = Some (Obj req) \<longrightarrow>
           (\<exists>req'. fwd ''request'' = Some (Obj req') \<and>
              req' ''query'' = Some (getProp req ''searchParams'') \<and>
              req' ''searchParams'' = req ''searchParams'')"
    by (elim exE conjE)
  from 2 have m2: "fwd ''method'' = Some (Str ''get'')"
    by (simp add: toLowerCase_GET)
  from 3 have m3: "toOpenApiPath ''/users/:id'' = Inr p"
    by simp
  from 5 [THEN spec, THEN mp, OF r]
  have m5: "\<exists>req'. fwd ''request'' = Some (Obj req') \<and> req' ''query'' = Some (Str ''S'') \<and>
      req' ''searchParams'' = Some (Str ''S'')"
    by (simp add: getProp_def)
  show ?thesis
    apply (rule conjI [OF h])
    apply (rule exI [of _ fwd])
    apply (rule exI [of _ p])
    apply (intro conjI)
    apply (rule 1)
    apply (rule m2)
    apply (rule m3)
    apply (rule 4)
    apply (rule m5)
    done
qed

text \<open>
  C5 as it is worded fails on the route \<open>ANY /users/:id\<close> with the configuration
  \<open>{path: "/override", request: {searchParams: "S"}}\<close>: the method is \<open>"get"\<close>, not the
  lowercase \<open>"any"\<close> of the verb; the spread of the configuration after \<open>path\<close> replaces the
  converted path; and the request has \<open>query\<close> while it still has \<open>searchParams\<close>.
\<close>

theorem createSpec_forwards_counterexample:
  "createSpec (propertyOf ''method'')
     \<lparr>route_method = ''ANY'', pattern = \<lparr>source = ''/users/:id''\<rparr>\<rparr>
     (map_of [(''path'', Str ''/override''),
              (''request'', Obj (map_of [(''searchParams'', Str ''S'')]))])
     = Inr (Str ''get'') \<and>
   toLowerCase ''ANY'' = ''any'' \<and>
   createSpec (propertyOf ''path'')
     \<lparr>route_method = ''ANY'', pattern = \<lparr>source = ''/users/:id''\<rparr>\<rparr>
     (map_of [(''path'', Str ''/override''),
              (''request'', Obj (map_of [(''searchParams'', Str ''S'')]))])
     = Inr (Str ''/override'') \<and>
   toOpenApiPath ''/users/:id'' = Inr ''/users/{id}'' \<and>
   createSpec (propertyOf ''searchParams'' \<circ> propertyOf ''request'')
     \<lparr>route_method = ''ANY'', pattern = \<lparr>source = ''/users/:id''\<rparr>\<rparr>
     (map_of [(''path'', Str ''/override''),
              (''request'', Obj (map_of [(''searchParams'', Str ''S'')]))])
     = Inr (Str ''S'') \<and>
   createSpec (propertyOf ''query'' \<circ> propertyOf ''request'')
     \<lparr>route_method = ''ANY'', pattern = \<lparr>source = ''/users/:id''\<rparr>\<rparr>
     (map_of [(''path'', Str ''/override''),
              (''request'', Obj (map_of [(''searchParams'', Str ''S'')]))])
     = Inr (Str ''S'')"
  by (simp add: createSpec_def transformedConfig_def transformedRequest_def getProp_def
      propertyOf_def toOpenApiPath_eq replace_global_Cons isWordChar_def toOpenApiMethod_def
      toLowerCase_GET toLowerCase_ANY map_add_def)

end
